theory Spec2Isabelle
  imports Main "HOL-Library.AList"
begin

section \<open>Runtime values\<close>

text \<open>
  The generators of \<^verbatim>\<open>ArbitraryMutation.ts\<close> produce untyped JavaScript values
  (\<^verbatim>\<open>fc.Arbitrary<unknown>\<close>). The type \<open>unknown\<close> holds the kinds the
  combinators build: the literal kinds, arrays and string-keyed objects. An object
  keeps its own enumerable properties in insertion order, as \<^verbatim>\<open>Object.keys\<close> lists
  them. Of a number only its kind and its identity are used.
\<close>

datatype unknown =
    Undefined
  | Null
  | Boolean bool
  | Number int
  | String string
  | Array "unknown list"
  | Object "(string \<times> unknown) list"

fun isString :: "unknown \<Rightarrow> bool" where
  "isString (String s) = True"
| "isString v = False"

fun isNumber :: "unknown \<Rightarrow> bool" where
  "isNumber (Number n) = True"
| "isNumber v = False"

fun isBoolean :: "unknown \<Rightarrow> bool" where
  "isBoolean (Boolean b) = True"
| "isBoolean v = False"

fun isArray :: "unknown \<Rightarrow> bool" where
  "isArray (Array xs) = True"
| "isArray v = False"

fun isObject :: "unknown \<Rightarrow> bool" where
  "isObject (Object kvs) = True"
| "isObject v = False"

text \<open>\<^verbatim>\<open>Object.keys(o)\<close> for the values the combinators pass to it (objects).\<close>

fun Object_keys :: "unknown \<Rightarrow> string list" where
  "Object_keys (Object kvs) = map fst kvs"
| "Object_keys v = []"

text \<open>\<^verbatim>\<open>o[k]\<close>: the value of an own property, \<open>None\<close> when the object has none.\<close>

fun get :: "unknown \<Rightarrow> string \<Rightarrow> unknown option" where
  "get (Object kvs) k = map_of kvs k"
| "get v k = None"

text \<open>
  \<^verbatim>\<open>{ ...a, [key]: m }\<close>: a fresh object with the own properties of \<open>a\<close>, then
  \<open>key\<close> set to \<open>m\<close>. A key that \<open>a\<close> has keeps its place and takes the new
  value; a key that \<open>a\<close> lacks is added at the end.
\<close>

fun ownProperties :: "unknown \<Rightarrow> (string \<times> unknown) list" where
  "ownProperties (Object kvs) = kvs"
| "ownProperties v = []"

definition spreadWith :: "unknown \<Rightarrow> string \<Rightarrow> unknown \<Rightarrow> unknown" where
  "spreadWith a key m = Object (AList.update key m (ownProperties a))"

section \<open>The generation engine\<close>

text \<open>
  A generator of the engine (\<^verbatim>\<open>fc.Arbitrary<T>\<close>) is modelled by its support: the
  set of values a draw can return. The combinators the source uses are
  \<^verbatim>\<open>constant\<close>, \<^verbatim>\<open>oneof\<close>, \<^verbatim>\<open>map\<close>, \<^verbatim>\<open>chain\<close> and \<^verbatim>\<open>filter\<close>; a filter
  redraws until the predicate holds, so its draws are the draws that satisfy it.
\<close>

type_synonym 'a Arbitrary = "'a set"

definition fc_constant :: "'a \<Rightarrow> 'a Arbitrary" where
  "fc_constant v = {v}"

definition fc_oneof :: "'a Arbitrary list \<Rightarrow> 'a Arbitrary" where
  "fc_oneof gs = \<Union> (set gs)"

definition fc_map :: "'a Arbitrary \<Rightarrow> ('a \<Rightarrow> 'b) \<Rightarrow> 'b Arbitrary" where
  "fc_map g f = f ` g"

definition fc_chain :: "'a Arbitrary \<Rightarrow> ('a \<Rightarrow> 'b Arbitrary) \<Rightarrow> 'b Arbitrary" where
  "fc_chain g f = \<Union> (f ` g)"

definition fc_filter :: "'a Arbitrary \<Rightarrow> ('a \<Rightarrow> bool) \<Rightarrow> 'a Arbitrary" where
  "fc_filter g p = {x \<in> g. p x}"

section \<open>Helpers of fp-ts\<close>

text \<open>The elements of an array value, for the helpers that take an \<^verbatim>\<open>Array<A>\<close>.\<close>

fun elements :: "unknown \<Rightarrow> unknown list" where
  "elements (Array xs) = xs"
| "elements v = []"

definition isNonEmpty :: "'a list \<Rightarrow> bool" where
  "isNonEmpty as = (0 < length as)"

text \<open>
  \<^verbatim>\<open>unsafeUpdateAt(i, a, as)\<close> returns \<open>as\<close> itself when the slot already holds
  \<open>a\<close>, and otherwise a copy with the slot set; past the end, the assignment
  extends the copy and leaves the skipped slots undefined.
\<close>

definition unsafeUpdateAt :: "nat \<Rightarrow> unknown \<Rightarrow> unknown list \<Rightarrow> unknown list" where
  "unsafeUpdateAt i a as =
     (if i < length as then (if as ! i = a then as else as[i := a])
      else as @ replicate (i - length as) Undefined @ [a])"

definition not :: "('a \<Rightarrow> bool) \<Rightarrow> 'a \<Rightarrow> bool" where
  "not predicate = (\<lambda>a. \<not> predicate a)"

section \<open>The valid generators and the literal guard\<close>

text \<open>
  Modelled from the spec: the modules \<^verbatim>\<open>./Arbitrary\<close> (imported as \<open>A\<close>) and
  \<^verbatim>\<open>./Guard\<close> (imported as \<open>G\<close>) are not among the sources. Each definition of
  this section follows the spec's description of the valid generator of a node kind
  (sections 4.1 to 4.6) and is named after the function it stands for.
\<close>

definition A_string :: "unknown Arbitrary" where
  \<comment> \<open>Modelled from the spec: the primitive generator of strings.\<close>
  "A_string = {v. isString v}"

definition A_number :: "unknown Arbitrary" where
  \<comment> \<open>Modelled from the spec: the primitive generator of numbers.\<close>
  "A_number = {v. isNumber v}"

definition A_boolean :: "unknown Arbitrary" where
  \<comment> \<open>Modelled from the spec: the primitive generator of booleans.\<close>
  "A_boolean = {v. isBoolean v}"

definition A_UnknownArray :: "unknown Arbitrary" where
  \<comment> \<open>Modelled from the spec: a generic array.\<close>
  "A_UnknownArray = {v. isArray v}"

definition A_UnknownRecord :: "unknown Arbitrary" where
  \<comment> \<open>Modelled from the spec: a generic key-value mapping.\<close>
  "A_UnknownRecord = {Object kvs |kvs. distinct (map fst kvs)}"

definition A_literal :: "unknown list \<Rightarrow> unknown Arbitrary" where
  \<comment> \<open>Modelled from the spec: uniform choice among \<open>values\<close>.\<close>
  "A_literal values = fc_oneof (map fc_constant values)"

definition G_literal_is :: "unknown list \<Rightarrow> unknown \<Rightarrow> bool" where
  \<comment> \<open>Modelled from the spec: the guard of \<open>literal(values)\<close> accepts the values in \<open>values\<close>.\<close>
  "G_literal_is values u = (u \<in> set values)"

definition A_union :: "unknown Arbitrary list \<Rightarrow> unknown Arbitrary" where
  \<comment> \<open>Modelled from the spec: choose one member uniformly, draw its value.\<close>
  "A_union members = fc_oneof members"

text \<open>
  Modelled from the spec: the field lists of the objects that \<^verbatim>\<open>A.type\<close> assembles,
  one valid value for every declared field, in the declared order.
\<close>

fun typeFields :: "(string \<times> unknown Arbitrary) list \<Rightarrow> (string \<times> unknown) list set" where
  "typeFields [] = {[]}"
| "typeFields ((k, g) # ps) = {(k, v) # kvs |v kvs. v \<in> g \<and> kvs \<in> typeFields ps}"

definition A_type :: "(string \<times> unknown Arbitrary) list \<Rightarrow> unknown Arbitrary" where
  \<comment> \<open>Modelled from the spec: independently draw each field's valid value and assemble the object.\<close>
  "A_type properties = Object ` typeFields properties"

text \<open>
  Modelled from the spec: the field lists of the objects that \<^verbatim>\<open>A.partial\<close>
  assembles; every declared field is left out or holds one valid value.
\<close>

fun partialFields :: "(string \<times> unknown Arbitrary) list \<Rightarrow> (string \<times> unknown) list set" where
  "partialFields [] = {[]}"
| "partialFields ((k, g) # ps) =
     partialFields ps \<union> {(k, v) # kvs |v kvs. v \<in> g \<and> kvs \<in> partialFields ps}"

definition A_partial :: "(string \<times> unknown Arbitrary) list \<Rightarrow> unknown Arbitrary" where
  \<comment> \<open>Modelled from the spec: each field is independently present with a valid value or absent.\<close>
  "A_partial properties = Object ` partialFields properties"

definition A_record :: "unknown Arbitrary \<Rightarrow> unknown Arbitrary" where
  \<comment> \<open>Modelled from the spec: a string-keyed mapping whose every value is drawn from the codomain.\<close>
  "A_record codomain = {Object kvs |kvs. distinct (map fst kvs) \<and> snd ` set kvs \<subseteq> codomain}"

definition A_array :: "unknown Arbitrary \<Rightarrow> unknown Arbitrary" where
  \<comment> \<open>Modelled from the spec: a sequence whose elements are all drawn from the item generator.\<close>
  "A_array items = {Array xs |xs. set xs \<subseteq> items}"

definition A_tuple :: "unknown Arbitrary list \<Rightarrow> unknown Arbitrary" where
  \<comment> \<open>Modelled from the spec: draw each component's value positionally.\<close>
  "A_tuple components = {Array xs |xs. list_all2 (\<lambda>x g. x \<in> g) xs components}"

definition intersect :: "unknown \<Rightarrow> unknown \<Rightarrow> unknown" where
  \<comment> \<open>Modelled from the spec: the structural merge of two values. The fields of the left
      value, with each field of the right value set in turn; operands that are not
      objects bring no field.\<close>
  "intersect a b = Object (fold (\<lambda>(k, v). AList.update k v) (ownProperties b) (ownProperties a))"

definition A_intersection :: "unknown Arbitrary \<Rightarrow> unknown Arbitrary \<Rightarrow> unknown Arbitrary" where
  \<comment> \<open>Modelled from the spec: the structural merge of a draw of the left and a draw of the right.\<close>
  "A_intersection left right = {intersect a b |a b. a \<in> left \<and> b \<in> right}"

definition A_sum :: "string \<Rightarrow> (string \<times> unknown Arbitrary) list \<Rightarrow> unknown Arbitrary" where
  \<comment> \<open>Modelled from the spec: choose one tag uniformly, draw that member's value.\<close>
  "A_sum tag members = fc_oneof (map snd members)"

definition A_lazy :: "(unit \<Rightarrow> unknown Arbitrary) \<Rightarrow> unknown Arbitrary" where
  \<comment> \<open>Modelled from the spec: the factory is invoked on every access.\<close>
  "A_lazy f = f ()"

section \<open>ArbitraryMutation.ts\<close>

subsection \<open>Model and constructors\<close>

record ArbitraryMutation =
  mutation :: "unknown Arbitrary"
  arbitrary :: "unknown Arbitrary"

definition make :: "unknown Arbitrary \<Rightarrow> unknown Arbitrary \<Rightarrow> ArbitraryMutation" where
  "make m a = \<lparr>mutation = m, arbitrary = a\<rparr>"

definition literalsArbitrary :: "unknown Arbitrary" where
  "literalsArbitrary = A_union [A_string, A_number, A_boolean, fc_constant Null]"

definition literal :: "unknown list \<Rightarrow> ArbitraryMutation" where
  "literal values =
     make (fc_filter literalsArbitrary (not (G_literal_is values))) (A_literal values)"

subsection \<open>Primitives\<close>

definition string :: ArbitraryMutation where
  "string = make (fc_oneof [A_number, A_boolean]) A_string"

definition number :: ArbitraryMutation where
  "number = make (fc_oneof [A_string, A_boolean]) A_number"

definition boolean :: ArbitraryMutation where
  "boolean =
     make
       (fc_oneof [A_string, A_number,
          fc_oneof [fc_constant (String ''true''), fc_constant (String ''false''),
            fc_constant (String ''0''), fc_constant (String ''1'')]])
       A_boolean"

definition UnknownArray :: ArbitraryMutation where
  "UnknownArray = make A_UnknownRecord A_UnknownArray"

definition UnknownRecord :: ArbitraryMutation where
  "UnknownRecord = make A_UnknownArray A_UnknownRecord"

subsection \<open>Combinators\<close>

definition union_AM :: "ArbitraryMutation list \<Rightarrow> ArbitraryMutation" where
  "union_AM members =
     (let mutations = map mutation members;
          arbitraries = map arbitrary members
      in make (A_union mutations) (A_union arbitraries))"

definition nullMutation :: ArbitraryMutation where
  "nullMutation = make (fc_constant (Object [])) (fc_constant Null)"

definition nullable :: "ArbitraryMutation \<Rightarrow> ArbitraryMutation" where
  "nullable or' = union_AM [nullMutation, or']"

text \<open>
  \<open>type\<close> and \<open>partial\<close> build the same three local values from \<open>properties\<close>:
  the record \<open>mutations\<close>, the record \<open>arbitraries\<close> and the generator \<open>key\<close>
  of the declared keys. \<open>mutationsAt properties key\<close> is the lookup
  \<^verbatim>\<open>mutations[key]\<close>; a key that is not declared has no generator to draw from.
\<close>

definition mutationsAt :: "(string \<times> ArbitraryMutation) list \<Rightarrow> string \<Rightarrow> unknown Arbitrary" where
  "mutationsAt properties key =
     (case map_of properties key of Some p \<Rightarrow> mutation p | None \<Rightarrow> {})"

definition arbitraries :: "(string \<times> ArbitraryMutation) list \<Rightarrow> (string \<times> unknown Arbitrary) list" where
  "arbitraries properties = map (\<lambda>(k, p). (k, arbitrary p)) properties"

definition keyArbitrary :: "(string \<times> ArbitraryMutation) list \<Rightarrow> string Arbitrary" where
  "keyArbitrary properties = fc_oneof (map fc_constant (map fst properties))"

text \<open>
  The function both combinators chain after the valid draw \<open>a\<close>:
  \<^verbatim>\<open>a => key.chain(key => mutations[key].map(m => ({ ...a, [key]: m })))\<close>.
\<close>

definition corruptField :: "(string \<times> ArbitraryMutation) list \<Rightarrow> unknown \<Rightarrow> unknown Arbitrary" where
  "corruptField properties a =
     fc_chain (keyArbitrary properties)
       (\<lambda>key. fc_map (mutationsAt properties key) (\<lambda>m. spreadWith a key m))"

definition type_AM :: "(string \<times> ArbitraryMutation) list \<Rightarrow> ArbitraryMutation" where
  "type_AM properties =
     (let keys = map fst properties in
      if length keys = 0 then make (fc_constant (Array [])) (fc_constant (Object []))
      else
        let arbitrary = A_type (arbitraries properties)
        in make (fc_chain arbitrary (corruptField properties)) arbitrary)"

definition nonEmpty :: "unknown \<Rightarrow> bool" where
  "nonEmpty obj = (0 < length (Object_keys obj))"

definition partial :: "(string \<times> ArbitraryMutation) list \<Rightarrow> ArbitraryMutation" where
  "partial properties =
     (let keys = map fst properties in
      if length keys = 0 then make (fc_constant (Array [])) (fc_constant (Object []))
      else
        let arbitrary = A_partial (arbitraries properties)
        in make (fc_chain (fc_filter arbitrary nonEmpty) (corruptField properties)) arbitrary)"

definition record_AM :: "ArbitraryMutation \<Rightarrow> ArbitraryMutation" where
  "record_AM codomain =
     make (fc_filter (A_record (mutation codomain)) nonEmpty) (A_record (arbitrary codomain))"

definition array :: "ArbitraryMutation \<Rightarrow> ArbitraryMutation" where
  "array items =
     make (fc_filter (A_array (mutation items)) (\<lambda>as. isNonEmpty (elements as)))
       (A_array (arbitrary items))"

text \<open>\<^verbatim>\<open>mutations[i]\<close> of \<open>tuple\<close>; an index past the end has no generator to draw from.\<close>

definition mutationsNth :: "unknown Arbitrary list \<Rightarrow> nat \<Rightarrow> unknown Arbitrary" where
  "mutationsNth mutations i = (if i < length mutations then mutations ! i else {})"

definition tuple :: "ArbitraryMutation list \<Rightarrow> ArbitraryMutation" where
  "tuple components =
     (let arbitrary = A_tuple (map arbitrary components) in
      if length components = 0 then make (fc_constant (Object [])) arbitrary
      else
        let mutations = map mutation components;
            index = fc_oneof (map fc_constant [0..<length components])
        in make
             (fc_chain arbitrary
                (\<lambda>t. fc_chain index
                  (\<lambda>i. fc_map (mutationsNth mutations i)
                    (\<lambda>m. Array (unsafeUpdateAt i m (elements t))))))
             arbitrary)"

definition intersection :: "ArbitraryMutation \<Rightarrow> ArbitraryMutation \<Rightarrow> ArbitraryMutation" where
  "intersection left right =
     make (A_intersection (mutation left) (mutation right))
       (A_intersection (arbitrary left) (arbitrary right))"

definition sum_AM :: "string \<Rightarrow> (string \<times> ArbitraryMutation) list \<Rightarrow> ArbitraryMutation" where
  "sum_AM tag members =
     (let f = A_sum tag;
          mutations = map (\<lambda>(k, p). (k, mutation p)) members;
          arbitraries = map (\<lambda>(k, p). (k, arbitrary p)) members
      in make (f mutations) (f arbitraries))"

definition lazy :: "(unit \<Rightarrow> ArbitraryMutation) \<Rightarrow> ArbitraryMutation" where
  "lazy f = make (A_lazy (\<lambda>u. mutation (f ()))) (A_lazy (\<lambda>u. arbitrary (f ())))"

section \<open>Schema nodes and structural validity\<close>

text \<open>
  The binding \<^verbatim>\<open>arbitraryMutation\<close> maps every node kind of a schema to its
  combinator. \<open>SchemaNode\<close> is the schema tree of the spec's data model and
  \<open>interp\<close> is that binding, applied bottom-up. The recursive node is left out: a
  deferred self-reference is not a finite tree, and \<open>lazy\<close> adds nothing to the
  support of the generators it wraps.
\<close>

datatype SchemaNode =
    Literal "unknown list"
  | StringPrim
  | NumberPrim
  | BooleanPrim
  | UnknownArrayPrim
  | UnknownRecordPrim
  | Nullable SchemaNode
  | ObjectRequired "(string \<times> SchemaNode) list"
  | ObjectOptional "(string \<times> SchemaNode) list"
  | MapOf SchemaNode
  | TupleOf "SchemaNode list"
  | ArrayOf SchemaNode
  | Intersection SchemaNode SchemaNode
  | TaggedUnion string "(string \<times> SchemaNode) list"
  | UntaggedUnion "SchemaNode list"

fun interp :: "SchemaNode \<Rightarrow> ArbitraryMutation" where
  "interp (Literal values) = literal values"
| "interp StringPrim = string"
| "interp NumberPrim = number"
| "interp BooleanPrim = boolean"
| "interp UnknownArrayPrim = UnknownArray"
| "interp UnknownRecordPrim = UnknownRecord"
| "interp (Nullable n) = nullable (interp n)"
| "interp (ObjectRequired fs) = type_AM (map (\<lambda>(k, n). (k, interp n)) fs)"
| "interp (ObjectOptional fs) = partial (map (\<lambda>(k, n). (k, interp n)) fs)"
| "interp (MapOf n) = record_AM (interp n)"
| "interp (TupleOf ns) = tuple (map interp ns)"
| "interp (ArrayOf n) = array (interp n)"
| "interp (Intersection l r) = intersection (interp l) (interp r)"
| "interp (TaggedUnion tag ms) = sum_AM tag (map (\<lambda>(k, n). (k, interp n)) ms)"
| "interp (UntaggedUnion ns) = union_AM (map interp ns)"

text \<open>
  Modelled from the spec: structural validity of a value for a node, the predicate a
  decoder under test decides (the guards of \<^verbatim>\<open>./Guard\<close> are not among the
  sources). A required object holds every declared field with a valid value; an
  optional object holds no declared field with an invalid value; a map or an array
  holds valid values only; a tuple holds one valid value per component; a value is
  valid for an intersection when it is valid for both sides and for a union when it
  is valid for a member (for a tagged union, the member its discriminator names).
\<close>

fun valid :: "SchemaNode \<Rightarrow> unknown \<Rightarrow> bool" where
  "valid (Literal values) u = (u \<in> set values)"
| "valid StringPrim u = isString u"
| "valid NumberPrim u = isNumber u"
| "valid BooleanPrim u = isBoolean u"
| "valid UnknownArrayPrim u = isArray u"
| "valid UnknownRecordPrim u = isObject u"
| "valid (Nullable n) u = (u = Null \<or> valid n u)"
| "valid (ObjectRequired fs) u =
     (isObject u \<and>
      list_all (\<lambda>(k, n). case get u k of Some x \<Rightarrow> valid n x | None \<Rightarrow> False) fs)"
| "valid (ObjectOptional fs) u =
     (isObject u \<and>
      list_all (\<lambda>(k, n). case get u k of Some x \<Rightarrow> valid n x | None \<Rightarrow> True) fs)"
| "valid (MapOf n) u = (isObject u \<and> list_all (\<lambda>(k, x). valid n x) (ownProperties u))"
| "valid (TupleOf ns) u = (isArray u \<and> list_all2 valid ns (elements u))"
| "valid (ArrayOf n) u = (isArray u \<and> list_all (valid n) (elements u))"
| "valid (Intersection l r) u = (valid l u \<and> valid r u)"
| "valid (TaggedUnion tag ms) u =
     (isObject u \<and> list_ex (\<lambda>(k, n). get u tag = Some (String k) \<and> valid n u) ms)"
| "valid (UntaggedUnion ns) u = list_ex (\<lambda>n. valid n u) ns"

text \<open>
  The nodes built without \<open>nullable\<close>, \<open>intersection\<close>, \<open>sum\<close> and \<open>union\<close>:
  literals, primitives and the object, map, tuple and array combinators over such
  nodes.
\<close>

fun unionFree :: "SchemaNode \<Rightarrow> bool" where
  "unionFree (Nullable n) = False"
| "unionFree (ObjectRequired fs) = list_all (\<lambda>(k, n). unionFree n) fs"
| "unionFree (ObjectOptional fs) = list_all (\<lambda>(k, n). unionFree n) fs"
| "unionFree (MapOf n) = unionFree n"
| "unionFree (TupleOf ns) = list_all unionFree ns"
| "unionFree (ArrayOf n) = unionFree n"
| "unionFree (Intersection l r) = False"
| "unionFree (TaggedUnion tag ms) = False"
| "unionFree (UntaggedUnion ns) = False"
| "unionFree n = True"

section \<open>Supports of the engine's combinators\<close>

lemma mutation_make [simp]: "mutation (make m a) = m"
  by (simp add: make_def)

lemma arbitrary_make [simp]: "arbitrary (make m a) = a"
  by (simp add: make_def)

lemma fc_oneof_Nil [simp]: "fc_oneof [] = {}"
  by (simp add: fc_oneof_def)

lemma fc_oneof_Cons [simp]: "fc_oneof (g # gs) = g \<union> fc_oneof gs"
  by (simp add: fc_oneof_def)

lemma fc_oneof_constants [simp]: "fc_oneof (map fc_constant xs) = set xs"
  by (induction xs) (simp_all add: fc_constant_def)

lemma fc_chain_iff: "v \<in> fc_chain g f \<longleftrightarrow> (\<exists>a \<in> g. v \<in> f a)"
  by (auto simp add: fc_chain_def)

lemma fc_filter_iff: "a \<in> fc_filter g p \<longleftrightarrow> a \<in> g \<and> p a"
  by (simp add: fc_filter_def)

lemma literal_mutation_support:
  "mutation (literal values) =
     {v. (isString v \<or> isNumber v \<or> isBoolean v \<or> v = Null) \<and> v \<notin> set values}"
  by (auto simp add: literal_def literalsArbitrary_def A_union_def fc_filter_def not_def
      G_literal_is_def A_string_def A_number_def A_boolean_def fc_constant_def)

section \<open>Objects: one field set after a valid draw\<close>

lemma typeFields_keys: "kvs \<in> typeFields ps \<Longrightarrow> map fst kvs = map fst ps"
  by (induction ps arbitrary: kvs rule: typeFields.induct) auto

lemma typeFields_values:
  "kvs \<in> typeFields ps \<Longrightarrow> map_of ps k = Some g \<Longrightarrow> \<exists>x \<in> g. map_of kvs k = Some x"
  by (induction ps arbitrary: kvs rule: typeFields.induct) (auto split: if_splits)

lemma map_of_arbitraries:
  "map_of (arbitraries properties) k = map_option arbitrary (map_of properties k)"
  by (induction properties) (auto simp add: arbitraries_def)

lemma keys_arbitraries: "map fst (arbitraries properties) = map fst properties"
  by (induction properties) (auto simp add: arbitraries_def)

lemma get_spreadWith:
  "get (spreadWith a key m) k = (if k = key then Some m else map_of (ownProperties a) k)"
  by (simp add: spreadWith_def update_conv')

lemma keys_spreadWith:
  "Object_keys (spreadWith a key m) =
     (if key \<in> set (map fst (ownProperties a)) then map fst (ownProperties a)
      else map fst (ownProperties a) @ [key])"
  by (simp add: spreadWith_def update_keys)

lemma keyArbitrary_support: "keyArbitrary properties = fst ` set properties"
  unfolding keyArbitrary_def by (simp only: fc_oneof_constants set_map)

lemma map_of_declared: "key \<in> fst ` set properties \<longleftrightarrow> (\<exists>p. map_of properties key = Some p)"
  by (metis domIff dom_map_of_conv_image_fst not_Some_eq)

lemma corruptField_unfold:
  "v \<in> corruptField properties a \<longleftrightarrow>
     (\<exists>key \<in> fst ` set properties. \<exists>m \<in> mutationsAt properties key. v = spreadWith a key m)"
  by (auto simp add: corruptField_def fc_chain_def fc_map_def keyArbitrary_support)

lemma mutationsAt_iff:
  "m \<in> mutationsAt properties key \<longleftrightarrow> (\<exists>p. map_of properties key = Some p \<and> m \<in> mutation p)"
  by (simp add: mutationsAt_def split: option.splits)

lemma corruptField_iff:
  "v \<in> corruptField properties a \<longleftrightarrow>
     (\<exists>key m p. map_of properties key = Some p \<and> m \<in> mutation p \<and> v = spreadWith a key m)"
proof
  assume "v \<in> corruptField properties a"
  then obtain key m where m: "m \<in> mutationsAt properties key" and v: "v = spreadWith a key m"
    unfolding corruptField_unfold by auto
  from m obtain p where "map_of properties key = Some p" "m \<in> mutation p"
    unfolding mutationsAt_iff by auto
  with v show "\<exists>key m p. map_of properties key = Some p \<and> m \<in> mutation p \<and> v = spreadWith a key m"
    by auto
next
  assume "\<exists>key m p. map_of properties key = Some p \<and> m \<in> mutation p \<and> v = spreadWith a key m"
  then obtain key m p where p: "map_of properties key = Some p"
    and m: "m \<in> mutation p" and v: "v = spreadWith a key m" by auto
  from p have "key \<in> fst ` set properties" unfolding map_of_declared by auto
  moreover from p m have "m \<in> mutationsAt properties key" unfolding mutationsAt_iff by auto
  ultimately show "v \<in> corruptField properties a"
    unfolding corruptField_unfold using v by auto
qed

lemma type_AM_Cons:
  "properties \<noteq> [] \<Longrightarrow>
   type_AM properties =
     make (fc_chain (A_type (arbitraries properties)) (corruptField properties))
       (A_type (arbitraries properties))"
  by (simp add: type_AM_def Let_def)

lemma partial_Cons:
  "properties \<noteq> [] \<Longrightarrow>
   partial properties =
     make (fc_chain (fc_filter (A_partial (arbitraries properties)) nonEmpty) (corruptField properties))
       (A_partial (arbitraries properties))"
  by (simp add: partial_def Let_def)

lemma type_AM_mutation_iff:
  "properties \<noteq> [] \<Longrightarrow>
   v \<in> mutation (type_AM properties) \<longleftrightarrow>
     (\<exists>a key m p. a \<in> arbitrary (type_AM properties) \<and> map_of properties key = Some p \<and>
        m \<in> mutation p \<and> v = spreadWith a key m)"
  by (simp add: type_AM_Cons fc_chain_iff corruptField_iff Bex_def)

lemma partial_mutation_iff:
  "properties \<noteq> [] \<Longrightarrow>
   v \<in> mutation (partial properties) \<longleftrightarrow>
     (\<exists>a key m p. a \<in> arbitrary (partial properties) \<and> nonEmpty a \<and>
        map_of properties key = Some p \<and> m \<in> mutation p \<and> v = spreadWith a key m)"
  by (simp add: partial_Cons fc_chain_iff fc_filter_iff corruptField_iff Bex_def conj_assoc)

lemma A_type_iff: "a \<in> A_type ps \<longleftrightarrow> (\<exists>kvs. a = Object kvs \<and> kvs \<in> typeFields ps)"
  by (auto simp add: A_type_def)

lemma A_partial_iff: "a \<in> A_partial ps \<longleftrightarrow> (\<exists>kvs. a = Object kvs \<and> kvs \<in> partialFields ps)"
  by (auto simp add: A_partial_def)

lemma map_of_interp_fields:
  "map_of (map (\<lambda>(k, n). (k, interp n)) fs) key = map_option interp (map_of fs key)"
  by (induction fs) auto

lemma type_AM_mutation_shape:
  assumes "properties \<noteq> []" and "v \<in> mutation (type_AM properties)"
  shows "\<exists>a key p m. a \<in> arbitrary (type_AM properties) \<and> map_of properties key = Some p \<and>
           m \<in> mutation p \<and> v = spreadWith a key m \<and>
           Object_keys v = map fst properties \<and> get v key = Some m \<and>
           (\<forall>k p'. k \<noteq> key \<and> map_of properties k = Some p' \<longrightarrow>
              (\<exists>x \<in> arbitrary p'. get v k = Some x \<and> get a k = Some x))"
proof -
  from assms obtain a key p m where a: "a \<in> arbitrary (type_AM properties)"
    and p: "map_of properties key = Some p" and m: "m \<in> mutation p"
    and v: "v = spreadWith a key m"
    unfolding type_AM_mutation_iff [OF assms(1)] by blast
  from a assms(1) obtain kvs where kvs: "a = Object kvs" "kvs \<in> typeFields (arbitraries properties)"
    by (auto simp add: type_AM_Cons A_type_iff)
  then have keys: "map fst kvs = map fst properties"
    using typeFields_keys keys_arbitraries by metis
  from p have "key \<in> fst ` set properties" by (simp add: map_of_declared)
  then have "key \<in> set (map fst kvs)" using keys by simp
  then have "Object_keys v = map fst properties"
    using v kvs keys by (simp add: keys_spreadWith)
  moreover have "get v key = Some m" using v by (simp add: get_spreadWith)
  moreover have "\<forall>k p'. k \<noteq> key \<and> map_of properties k = Some p' \<longrightarrow>
              (\<exists>x \<in> arbitrary p'. get v k = Some x \<and> get a k = Some x)"
  proof (intro allI impI, elim conjE)
    fix k p'
    assume k: "k \<noteq> key" and p': "map_of properties k = Some p'"
    from p' have "map_of (arbitraries properties) k = Some (arbitrary p')"
      by (simp add: map_of_arbitraries)
    from typeFields_values [OF kvs(2) this]
    obtain x where "x \<in> arbitrary p'" "map_of kvs k = Some x" by auto
    then show "\<exists>x \<in> arbitrary p'. get v k = Some x \<and> get a k = Some x"
      using k v kvs(1) by (auto simp add: get_spreadWith)
  qed
  ultimately show ?thesis using a p m v by (intro exI conjI) assumption+
qed

lemma type_AM_Nil: "type_AM [] = make (fc_constant (Array [])) (fc_constant (Object []))"
  by (simp add: type_AM_def)

lemma partial_Nil: "partial [] = make (fc_constant (Array [])) (fc_constant (Object []))"
  by (simp add: partial_def)

section \<open>Tuples, arrays and maps\<close>

lemma unsafeUpdateAt_in_range: "i < length as \<Longrightarrow> unsafeUpdateAt i a as = as[i := a]"
  by (auto simp add: unsafeUpdateAt_def)

lemma A_tuple_iff: "v \<in> A_tuple gs \<longleftrightarrow> (\<exists>t. v = Array t \<and> list_all2 (\<lambda>x g. x \<in> g) t gs)"
  by (auto simp add: A_tuple_def)

lemma tuple_Cons:
  "components \<noteq> [] \<Longrightarrow>
   tuple components =
     make
       (fc_chain (A_tuple (map arbitrary components))
          (\<lambda>t. fc_chain (fc_oneof (map fc_constant [0..<length components]))
            (\<lambda>i. fc_map (mutationsNth (map mutation components) i)
              (\<lambda>m. Array (unsafeUpdateAt i m (elements t))))))
       (A_tuple (map arbitrary components))"
  by (simp add: tuple_def Let_def)

lemma tuple_mutation_iff:
  assumes "components \<noteq> []"
  shows "v \<in> mutation (tuple components) \<longleftrightarrow>
     (\<exists>t i m. Array t \<in> arbitrary (tuple components) \<and> i < length components \<and>
        m \<in> mutation (components ! i) \<and> v = Array (t[i := m]))"
proof
  assume "v \<in> mutation (tuple components)"
  then obtain a i m where a: "a \<in> A_tuple (map arbitrary components)"
    and i: "i < length components" and m: "m \<in> mutationsNth (map mutation components) i"
    and v: "v = Array (unsafeUpdateAt i m (elements a))"
    using assms by (auto simp add: tuple_Cons fc_chain_def fc_map_def)
  from a obtain t where t: "a = Array t" "list_all2 (\<lambda>x g. x \<in> g) t (map arbitrary components)"
    unfolding A_tuple_iff by auto
  then have len: "length t = length components" by (auto dest: list_all2_lengthD)
  from i m have "m \<in> mutation (components ! i)" by (simp add: mutationsNth_def)
  moreover from v t i len have "v = Array (t[i := m])" by (simp add: unsafeUpdateAt_in_range)
  moreover from a t assms have "Array t \<in> arbitrary (tuple components)" by (simp add: tuple_Cons)
  ultimately show "\<exists>t i m. Array t \<in> arbitrary (tuple components) \<and> i < length components \<and>
        m \<in> mutation (components ! i) \<and> v = Array (t[i := m])"
    using i by blast
next
  assume "\<exists>t i m. Array t \<in> arbitrary (tuple components) \<and> i < length components \<and>
        m \<in> mutation (components ! i) \<and> v = Array (t[i := m])"
  then obtain t i m where t: "Array t \<in> arbitrary (tuple components)" and i: "i < length components"
    and m: "m \<in> mutation (components ! i)" and v: "v = Array (t[i := m])" by blast
  from t assms have a: "Array t \<in> A_tuple (map arbitrary components)" by (simp add: tuple_Cons)
  then have "list_all2 (\<lambda>x g. x \<in> g) t (map arbitrary components)" unfolding A_tuple_iff by auto
  then have len: "length t = length components" by (auto dest: list_all2_lengthD)
  from i m have m': "m \<in> mutationsNth (map mutation components) i" by (simp add: mutationsNth_def)
  from v i len have v': "v = Array (unsafeUpdateAt i m (elements (Array t)))"
    by (simp add: unsafeUpdateAt_in_range)
  have "i \<in> fc_oneof (map fc_constant [0..<length components])" using i by simp
  with a m' v' show "v \<in> mutation (tuple components)"
    using assms unfolding tuple_Cons [OF assms] mutation_make fc_chain_def fc_map_def by blast
qed

lemma tuple_Nil: "tuple [] = make (fc_constant (Object [])) (A_tuple [])"
  by (simp add: tuple_def)

lemma array_mutation_iff:
  "v \<in> mutation (array items) \<longleftrightarrow> (\<exists>xs. v = Array xs \<and> xs \<noteq> [] \<and> set xs \<subseteq> mutation items)"
  by (auto simp add: array_def fc_filter_def A_array_def isNonEmpty_def)

lemma record_AM_mutation_iff:
  "v \<in> mutation (record_AM codomain) \<longleftrightarrow>
     (\<exists>kvs. v = Object kvs \<and> kvs \<noteq> [] \<and> distinct (map fst kvs) \<and> snd ` set kvs \<subseteq> mutation codomain)"
  by (auto simp add: record_AM_def fc_filter_def A_record_def nonEmpty_def)

section \<open>Unions\<close>

lemma union_AM_mutation: "mutation (union_AM members) = \<Union> (mutation ` set members)"
  by (simp add: union_AM_def A_union_def fc_oneof_def)

lemma union_AM_arbitrary: "arbitrary (union_AM members) = \<Union> (arbitrary ` set members)"
  by (simp add: union_AM_def A_union_def fc_oneof_def)

lemma nullable_mutation: "mutation (nullable inner) = insert (Object []) (mutation inner)"
  by (simp add: nullable_def union_AM_mutation nullMutation_def fc_constant_def)

lemma nullable_arbitrary: "arbitrary (nullable inner) = insert Null (arbitrary inner)"
  by (simp add: nullable_def union_AM_arbitrary nullMutation_def fc_constant_def)

section \<open>Corrupted draws of union-free nodes are invalid\<close>

lemma get_ownProperties: "get a k = map_of (ownProperties a) k"
  by (cases a) simp_all

lemma object_field_invalid:
  assumes fs: "fs \<noteq> []"
    and v: "\<exists>a key p m. map_of (map (\<lambda>(k, n). (k, interp n)) fs) key = Some p \<and>
               m \<in> mutation p \<and> v = spreadWith a key m"
    and IH: "\<forall>(k, n) \<in> set fs. \<forall>x \<in> mutation (interp n). \<not> valid n x"
  shows "\<exists>k n x. (k, n) \<in> set fs \<and> get v k = Some x \<and> \<not> valid n x"
proof -
  from v obtain a key p m where p: "map_of (map (\<lambda>(k, n). (k, interp n)) fs) key = Some p"
    and m: "m \<in> mutation p" and v': "v = spreadWith a key m" by auto
  from p obtain n where n: "map_of fs key = Some n" "p = interp n"
    by (auto simp add: map_of_interp_fields)
  then have mem: "(key, n) \<in> set fs" by (simp add: map_of_SomeD)
  with IH m n have "\<not> valid n m" by auto
  moreover have "get v key = Some m" using v' by (simp add: get_spreadWith)
  ultimately show ?thesis using mem by auto
qed

lemma mutation_not_valid:
  "unionFree n \<Longrightarrow> v \<in> mutation (interp n) \<Longrightarrow> \<not> valid n v"
proof (induction n arbitrary: v)
  case (Literal vs)
  then show ?case by (simp add: literal_mutation_support)
next
  case StringPrim
  then show ?case by (cases v) (simp_all add: string_def A_number_def A_boolean_def)
next
  case NumberPrim
  then show ?case by (cases v) (simp_all add: number_def A_string_def A_boolean_def)
next
  case BooleanPrim
  then show ?case
    by (cases v) (simp_all add: boolean_def A_string_def A_number_def fc_constant_def)
next
  case UnknownArrayPrim
  then show ?case by (auto simp add: UnknownArray_def A_UnknownRecord_def)
next
  case UnknownRecordPrim
  then show ?case by (cases v) (simp_all add: UnknownRecord_def A_UnknownArray_def)
next
  case (Nullable n)
  then show ?case by simp
next
  case (ObjectRequired fs)
  show ?case
  proof (cases "fs = []")
    case True
    with ObjectRequired.prems show ?thesis by (simp add: type_AM_Nil fc_constant_def)
  next
    case False
    then have ne: "map (\<lambda>(k, n). (k, interp n)) fs \<noteq> []" by simp
    have IH: "\<forall>(k, n) \<in> set fs. \<forall>x \<in> mutation (interp n). \<not> valid n x"
    proof (intro ballI, clarify)
      fix k n x
      assume mem: "(k, n) \<in> set fs" and x: "x \<in> mutation (interp n)" and val: "valid n x"
      from mem ObjectRequired.prems(1) have "unionFree n"
        by (auto simp add: list_all_iff)
      with ObjectRequired.IH [of "(k, n)" n x] mem x val show False by simp
    qed
    from ObjectRequired.prems(2) have
      "\<exists>a key p m. map_of (map (\<lambda>(k, n). (k, interp n)) fs) key = Some p \<and>
               m \<in> mutation p \<and> v = spreadWith a key m"
      unfolding interp.simps type_AM_mutation_iff [OF ne] by auto
    from object_field_invalid [OF False this IH]
    obtain k n x where "(k, n) \<in> set fs" "get v k = Some x" "\<not> valid n x" by auto
    then show ?thesis by (force simp add: list_all_iff)
  qed
next
  case (ObjectOptional fs)
  show ?case
  proof (cases "fs = []")
    case True
    with ObjectOptional.prems show ?thesis by (simp add: partial_Nil fc_constant_def)
  next
    case False
    then have ne: "map (\<lambda>(k, n). (k, interp n)) fs \<noteq> []" by simp
    have IH: "\<forall>(k, n) \<in> set fs. \<forall>x \<in> mutation (interp n). \<not> valid n x"
    proof (intro ballI, clarify)
      fix k n x
      assume mem: "(k, n) \<in> set fs" and x: "x \<in> mutation (interp n)" and val: "valid n x"
      from mem ObjectOptional.prems(1) have "unionFree n"
        by (auto simp add: list_all_iff)
      with ObjectOptional.IH [of "(k, n)" n x] mem x val show False by simp
    qed
    from ObjectOptional.prems(2) have
      "\<exists>a key p m. map_of (map (\<lambda>(k, n). (k, interp n)) fs) key = Some p \<and>
               m \<in> mutation p \<and> v = spreadWith a key m"
      unfolding interp.simps partial_mutation_iff [OF ne] by auto
    from object_field_invalid [OF False this IH]
    obtain k n x where "(k, n) \<in> set fs" "get v k = Some x" "\<not> valid n x" by auto
    then show ?thesis by (force simp add: list_all_iff)
  qed
next
  case (MapOf n)
  from MapOf.prems(2) obtain kvs where kvs: "v = Object kvs" "kvs \<noteq> []"
    "snd ` set kvs \<subseteq> mutation (interp n)"
    by (auto simp add: record_AM_mutation_iff)
  then obtain k x where kx: "(k, x) \<in> set kvs" by (cases kvs) auto
  with kvs(3) have "x \<in> mutation (interp n)" by force
  with MapOf.IH MapOf.prems(1) have "\<not> valid n x" by simp
  with kx kvs(1) show ?case by (auto simp add: list_all_iff)
next
  case (TupleOf ns)
  show ?case
  proof (cases "ns = []")
    case True
    with TupleOf.prems show ?thesis by (simp add: tuple_Nil fc_constant_def)
  next
    case False
    then have ne: "map interp ns \<noteq> []" by simp
    from TupleOf.prems(2) obtain t i m where t: "Array t \<in> arbitrary (tuple (map interp ns))"
      and i: "i < length ns" and m: "m \<in> mutation (interp (ns ! i))" and v: "v = Array (t[i := m])"
      unfolding interp.simps tuple_mutation_iff [OF ne] by auto
    from t ne have "list_all2 (\<lambda>x g. x \<in> g) t (map arbitrary (map interp ns))"
      by (simp add: tuple_Cons A_tuple_iff)
    then have len: "length t = length ns" by (auto dest: list_all2_lengthD)
    from i TupleOf.prems(1) have "unionFree (ns ! i)" by (simp add: list_all_length)
    with TupleOf.IH [of "ns ! i" m] i m have "\<not> valid (ns ! i) m" by simp
    then show ?thesis using v i len by (auto simp add: list_all2_conv_all_nth)
  qed
next
  case (ArrayOf n)
  from ArrayOf.prems(2) obtain xs where xs: "v = Array xs" "xs \<noteq> []"
    "set xs \<subseteq> mutation (interp n)"
    by (auto simp add: array_mutation_iff)
  then obtain x where x: "x \<in> set xs" by (cases xs) auto
  with xs(3) have "x \<in> mutation (interp n)" by auto
  with ArrayOf.IH ArrayOf.prems(1) have "\<not> valid n x" by simp
  with x xs(1) show ?case by (auto simp add: list_all_iff)
next
  case (Intersection l r)
  then show ?case by simp
next
  case (TaggedUnion tag ms)
  then show ?case by simp
next
  case (UntaggedUnion ns)
  then show ?case by simp
qed

lemma type_string_number_draw:
  "Object [(''a'', Number 42), (''b'', Number 7)] \<in>
     mutation (type_AM [(''a'', string), (''b'', number)])"
proof -
  have ne: "[(''a'', string), (''b'', number)] \<noteq> []" by simp
  have "Object [(''a'', String ''x''), (''b'', Number 7)] \<in>
      arbitrary (type_AM [(''a'', string), (''b'', number)])"
    by (simp add: type_AM_Cons A_type_iff arbitraries_def string_def number_def
        A_string_def A_number_def)
  moreover have "map_of [(''a'', string), (''b'', number)] ''a'' = Some string" by simp
  moreover have "Number 42 \<in> mutation string" by (simp add: string_def A_number_def)
  moreover have "Object [(''a'', Number 42), (''b'', Number 7)] =
      spreadWith (Object [(''a'', String ''x''), (''b'', Number 7)]) ''a'' (Number 42)"
    by (simp add: spreadWith_def)
  ultimately show ?thesis unfolding type_AM_mutation_iff [OF ne] by blast
qed

lemma partial_a_only:
  "Object [(''a'', String ''x'')] \<in> arbitrary (partial [(''a'', string), (''b'', number)])"
  by (simp add: partial_Cons A_partial_iff arbitraries_def string_def number_def A_string_def)


section \<open>The structural merge\<close>

lemma map_of_fold_update:
  "map_of (fold (\<lambda>(k, v). AList.update k v) bs as) k =
     (case map_of (rev bs) k of Some x \<Rightarrow> Some x | None \<Rightarrow> map_of as k)"
proof (induction bs arbitrary: as)
  case Nil
  then show ?case by simp
next
  case (Cons b bs)
  then show ?case
    by (cases b) (auto simp add: update_conv' map_add_def split: option.splits)
qed

lemma get_intersect:
  assumes "distinct (Object_keys b)"
  shows "get (intersect a b) k = (case get b k of Some x \<Rightarrow> Some x | None \<Rightarrow> get a k)"
proof -
  from assms have "distinct (map fst (ownProperties b))" by (cases b) simp_all
  then have "map_of (rev (ownProperties b)) = map_of (ownProperties b)"
    by (subst map_of_inject_set) (simp_all add: rev_map [symmetric])
  then show ?thesis
    by (simp add: intersect_def map_of_fold_update get_ownProperties [of a]
        get_ownProperties [of b] split: option.splits)
qed

section \<open>Primitive builders\<close>

text \<open>
  Claim C8. No draw of \<open>string\<close>'s corrupted generator is a string (each is a number
  or a boolean), no draw of \<open>number\<close>'s corrupted generator is a number, no draw of
  \<open>boolean\<close>'s corrupted generator is a boolean, and the corrupted generator of
  \<open>boolean\<close> can draw each of the strings "true", "false", "0" and "1".
\<close>

theorem primitive_mutations_miss_kind:
  "(v \<in> mutation string \<longrightarrow> \<not> isString v \<and> (isNumber v \<or> isBoolean v)) \<and>
   (w \<in> mutation number \<longrightarrow> \<not> isNumber w \<and> (isString w \<or> isBoolean w)) \<and>
   (u \<in> mutation boolean \<longrightarrow> \<not> isBoolean u \<and> (isString u \<or> isNumber u)) \<and>
   {String ''true'', String ''false'', String ''0'', String ''1''} \<subseteq> mutation boolean"
proof (intro conjI)
  show "v \<in> mutation string \<longrightarrow> \<not> isString v \<and> (isNumber v \<or> isBoolean v)"
    by (cases v) (simp_all add: string_def A_number_def A_boolean_def)
  show "w \<in> mutation number \<longrightarrow> \<not> isNumber w \<and> (isString w \<or> isBoolean w)"
    by (cases w) (simp_all add: number_def A_string_def A_boolean_def)
  show "u \<in> mutation boolean \<longrightarrow> \<not> isBoolean u \<and> (isString u \<or> isNumber u)"
    by (cases u) (simp_all add: boolean_def A_string_def A_number_def fc_constant_def)
  show "{String ''true'', String ''false'', String ''0'', String ''1''} \<subseteq> mutation boolean"
    by (simp add: boolean_def A_string_def)
qed

text \<open>
  Witness of C8: the number 42 is a corrupted draw of \<open>string\<close>, the string "x" is a
  corrupted draw of \<open>number\<close>, the string "true" is a corrupted draw of \<open>boolean\<close>.
\<close>

theorem primitive_mutations_miss_kind_witness:
  "Number 42 \<in> mutation string \<and> \<not> isString (Number 42) \<and>
   String ''x'' \<in> mutation number \<and> \<not> isNumber (String ''x'') \<and>
   String ''true'' \<in> mutation boolean \<and> \<not> isBoolean (String ''true'')"
  using primitive_mutations_miss_kind [of "Number 42" "String ''x''" "String ''true''"]
  by (simp add: string_def number_def A_string_def A_number_def)

text \<open>
  Claim C7. Every draw of the corrupted generator of \<open>literal values\<close> is a string, a
  number, a boolean or null, and is none of \<open>values\<close>.
\<close>

theorem literal_mutation_excludes_values:
  "v \<in> mutation (literal values) \<Longrightarrow>
     (isString v \<or> isNumber v \<or> isBoolean v \<or> v = Null) \<and> v \<notin> set values"
  by (auto simp add: literal_def literalsArbitrary_def A_union_def fc_filter_def not_def
      G_literal_is_def A_string_def A_number_def A_boolean_def fc_constant_def)

text \<open>
  Witness of C7: the corrupted generator of \<open>literal(1, "a", true)\<close> can draw 2 and
  draws none of 1, "a" and true.
\<close>

theorem literal_mutation_excludes_values_witness:
  "Number 2 \<in> mutation (literal [Number 1, String ''a'', Boolean True]) \<and>
   isNumber (Number 2) \<and>
   Number 1 \<notin> mutation (literal [Number 1, String ''a'', Boolean True]) \<and>
   String ''a'' \<notin> mutation (literal [Number 1, String ''a'', Boolean True]) \<and>
   Boolean True \<notin> mutation (literal [Number 1, String ''a'', Boolean True])"
  using literal_mutation_excludes_values [of "Number 2" "[Number 1, String ''a'', Boolean True]"]
    literal_mutation_excludes_values [of "Number 1" "[Number 1, String ''a'', Boolean True]"]
    literal_mutation_excludes_values [of "String ''a''" "[Number 1, String ''a'', Boolean True]"]
    literal_mutation_excludes_values [of "Boolean True" "[Number 1, String ''a'', Boolean True]"]
  by (auto simp add: literal_mutation_support)

section \<open>Degenerate objects and tuples\<close>

text \<open>
  Counterexample to C4 as stated: the corrupted generator of \<open>type({})\<close> draws the
  empty array, which is not the empty object.
\<close>

theorem type_empty_mutation_counterexample:
  "Array [] \<in> mutation (type_AM []) \<and> Array [] \<noteq> Object []"
  by (simp add: type_AM_def fc_constant_def)

text \<open>
  Claim C4, amended. For a required object with no declared field, every valid draw
  is the empty object and every corrupted draw is the empty array.
\<close>

theorem type_empty_generators:
  "arbitrary (type_AM []) = {Object []} \<and> mutation (type_AM []) = {Array []}"
  by (simp add: type_AM_def fc_constant_def)

text \<open>
  Counterexample to C5 as stated: the corrupted generator of \<open>tuple()\<close> draws the
  empty object, which is not the empty tuple.
\<close>

theorem tuple_empty_mutation_counterexample:
  "Object [] \<in> mutation (tuple []) \<and> Object [] \<noteq> Array []"
  by (simp add: tuple_def fc_constant_def)

text \<open>
  Claim C5, amended. Every corrupted draw of the zero-arity tuple is the empty
  object; its valid draws are the empty tuple.
\<close>

theorem tuple_empty_generators:
  "mutation (tuple []) = {Object []} \<and> arbitrary (tuple []) = {Array []}"
  by (auto simp add: tuple_def fc_constant_def A_tuple_def)

section \<open>Maps and arrays\<close>

text \<open>
  Claim C6. The corrupted draws of \<open>array items\<close> are the non-empty arrays whose
  elements are all corrupted draws of \<open>items\<close>; those of \<open>record codomain\<close> are the
  non-empty string-keyed objects whose values are all corrupted draws of
  \<open>codomain\<close>. Neither generator draws an empty container.
\<close>

theorem array_record_mutation_nonempty:
  "mutation (array items) = {Array xs |xs. xs \<noteq> [] \<and> set xs \<subseteq> mutation items} \<and>
   mutation (record_AM codomain) =
     {Object kvs |kvs. kvs \<noteq> [] \<and> distinct (map fst kvs) \<and> snd ` set kvs \<subseteq> mutation codomain} \<and>
   Array [] \<notin> mutation (array items) \<and> Object [] \<notin> mutation (record_AM codomain)"
  by (auto simp add: array_def record_AM_def fc_filter_def A_array_def A_record_def
      isNonEmpty_def nonEmpty_def)

text \<open>
  Witness of C6: \<open>[false]\<close> and \<open>[1, 2, true]\<close> are corrupted draws of an array of
  strings, \<open>{k: "x"}\<close> is a corrupted draw of a map of numbers.
\<close>

theorem array_record_mutation_nonempty_witness:
  "Array [Boolean False] \<in> mutation (array string) \<and>
   Array [Number 1, Number 2, Boolean True] \<in> mutation (array string) \<and>
   Object [(''k'', String ''x'')] \<in> mutation (record_AM number) \<and>
   Array [] \<notin> mutation (array string) \<and> Object [] \<notin> mutation (record_AM number)"
  using array_record_mutation_nonempty [of string number]
  by (simp add: string_def number_def A_string_def A_number_def A_boolean_def)

section \<open>Tuples\<close>

text \<open>
  Claim C10. For a tuple of arity at least one, every corrupted draw is an array of
  exactly that arity: it is a valid draw \<open>t\<close> in which one slot \<open>i\<close>, an index of
  the tuple, holds a corrupted draw of component \<open>i\<close>; every other slot holds what
  \<open>t\<close> holds there. Every index of the tuple can be the corrupted one.
\<close>

theorem tuple_mutation_frame:
  assumes "components \<noteq> []" and "v \<in> mutation (tuple components)"
  shows "(\<exists>t xs i. Array t \<in> arbitrary (tuple components) \<and> v = Array xs \<and>
           length xs = length components \<and> i < length components \<and>
           xs ! i \<in> mutation (components ! i) \<and>
           (\<forall>j < length components. j \<noteq> i \<longrightarrow> xs ! j = t ! j)) \<and>
         (\<forall>t i m. Array t \<in> arbitrary (tuple components) \<and> i < length components \<and>
           m \<in> mutation (components ! i) \<longrightarrow>
           Array (t[i := m]) \<in> mutation (tuple components))"
proof (rule conjI)
  show "\<forall>t i m. Array t \<in> arbitrary (tuple components) \<and> i < length components \<and>
           m \<in> mutation (components ! i) \<longrightarrow>
           Array (t[i := m]) \<in> mutation (tuple components)"
    unfolding tuple_mutation_iff [OF assms(1)] by blast
  from assms obtain t i m where t: "Array t \<in> arbitrary (tuple components)"
    and i: "i < length components" and m: "m \<in> mutation (components ! i)"
    and v: "v = Array (t[i := m])"
    unfolding tuple_mutation_iff [OF assms(1)] by blast
  from t assms(1) have "list_all2 (\<lambda>x g. x \<in> g) t (map arbitrary components)"
    by (simp add: tuple_Cons A_tuple_iff)
  then have len: "length t = length components" by (auto dest: list_all2_lengthD)
  have "length (t[i := m]) = length components" using len by simp
  moreover have "t[i := m] ! i \<in> mutation (components ! i)" using i len m by simp
  moreover have "\<forall>j < length components. j \<noteq> i \<longrightarrow> t[i := m] ! j = t ! j" by simp
  ultimately show "\<exists>t xs i. Array t \<in> arbitrary (tuple components) \<and> v = Array xs \<and>
           length xs = length components \<and> i < length components \<and>
           xs ! i \<in> mutation (components ! i) \<and>
           (\<forall>j < length components. j \<noteq> i \<longrightarrow> xs ! j = t ! j)"
    using t i v by blast
qed

text \<open>
  Witness of C10: \<open>[1, 2]\<close> is a corrupted draw of \<open>tuple(string, number)\<close>, from
  the valid draw \<open>["x", 2]\<close> with slot 0 replaced.
\<close>

theorem tuple_mutation_frame_witness:
  "[string, number] \<noteq> [] \<and> Array [Number 1, Number 2] \<in> mutation (tuple [string, number]) \<and>
   (\<exists>t xs i. Array t \<in> arbitrary (tuple [string, number]) \<and> Array [Number 1, Number 2] = Array xs \<and>
           length xs = length [string, number] \<and> i < length [string, number] \<and>
           xs ! i \<in> mutation ([string, number] ! i) \<and>
           (\<forall>j < length [string, number]. j \<noteq> i \<longrightarrow> xs ! j = t ! j))"
proof -
  have ne: "[string, number] \<noteq> []" by simp
  have "Array [String ''x'', Number 2] \<in> arbitrary (tuple [string, number])"
    by (simp add: tuple_Cons A_tuple_iff string_def number_def A_string_def A_number_def)
  moreover have "Number 1 \<in> mutation ([string, number] ! 0)"
    by (simp add: string_def A_number_def)
  moreover have "Array [Number 1, Number 2] = Array ([String ''x'', Number 2][0 := Number 1])"
    by simp
  ultimately have mem: "Array [Number 1, Number 2] \<in> mutation (tuple [string, number])"
    unfolding tuple_mutation_iff [OF ne] by (metis length_greater_0_conv ne)
  show ?thesis using ne mem tuple_mutation_frame [OF ne mem] by blast
qed

section \<open>Required objects\<close>

text \<open>
  Counterexample to C3 as stated: for \<open>type({a: union(string, number)})\<close> the
  corrupted generator draws \<open>{a: 42}\<close>. Its only field holds a corrupted draw of the
  field's generator, and that value is valid for the field's node, so no field of
  the result is invalid.
\<close>

theorem type_mutation_valid_field_counterexample:
  "Object [(''a'', Number 42)] \<in> mutation (type_AM [(''a'', union_AM [string, number])]) \<and>
   get (Object [(''a'', Number 42)]) ''a'' = Some (Number 42) \<and>
   Number 42 \<in> arbitrary (union_AM [string, number]) \<and>
   interp (UntaggedUnion [StringPrim, NumberPrim]) = union_AM [string, number] \<and>
   valid (UntaggedUnion [StringPrim, NumberPrim]) (Number 42)"
proof -
  have ne: "[(''a'', union_AM [string, number])] \<noteq> []" by simp
  have "Object [(''a'', String ''x'')] \<in> arbitrary (type_AM [(''a'', union_AM [string, number])])"
    by (simp add: type_AM_Cons A_type_iff arbitraries_def union_AM_arbitrary string_def A_string_def)
  moreover have "map_of [(''a'', union_AM [string, number])] ''a'' = Some (union_AM [string, number])"
    by simp
  moreover have "Number 42 \<in> mutation (union_AM [string, number])"
    by (simp add: union_AM_mutation string_def A_number_def)
  moreover have "Object [(''a'', Number 42)] = spreadWith (Object [(''a'', String ''x'')]) ''a'' (Number 42)"
    by (simp add: spreadWith_def)
  ultimately have "Object [(''a'', Number 42)] \<in> mutation (type_AM [(''a'', union_AM [string, number])])"
    unfolding type_AM_mutation_iff [OF ne] by blast
  moreover have "Number 42 \<in> arbitrary (union_AM [string, number])"
    by (simp add: union_AM_arbitrary number_def A_number_def)
  ultimately show ?thesis by simp
qed

text \<open>
  Claim C3, amended. For a non-empty field map, every corrupted draw of
  \<open>type(properties)\<close> has exactly the declared keys, in the declared order. It is a
  valid draw \<open>a\<close> in which one declared key holds a corrupted draw \<open>m\<close> of that
  field's generator; \<open>m\<close> is not valid for the field's node when that node is
  union-free. Every other declared field holds the value it has in \<open>a\<close>, a valid
  draw of its own field. Every declared key can be the one that is set.
\<close>

theorem type_mutation_single_fault:
  assumes "properties \<noteq> []" and "v \<in> mutation (type_AM properties)"
  shows "Object_keys v = map fst properties \<and>
         (\<exists>a key p m. a \<in> arbitrary (type_AM properties) \<and> map_of properties key = Some p \<and>
            m \<in> mutation p \<and> v = spreadWith a key m \<and> get v key = Some m \<and>
            (\<forall>n. unionFree n \<and> interp n = p \<longrightarrow> \<not> valid n m) \<and>
            (\<forall>k p'. k \<noteq> key \<and> map_of properties k = Some p' \<longrightarrow>
               (\<exists>x \<in> arbitrary p'. get v k = Some x \<and> get a k = Some x))) \<and>
         (\<forall>a key p m. a \<in> arbitrary (type_AM properties) \<and> map_of properties key = Some p \<and>
            m \<in> mutation p \<longrightarrow> spreadWith a key m \<in> mutation (type_AM properties))"
proof (intro conjI)
  from type_AM_mutation_shape [OF assms]
  obtain a key p m where a: "a \<in> arbitrary (type_AM properties)"
    and p: "map_of properties key = Some p" and m: "m \<in> mutation p"
    and v: "v = spreadWith a key m"
    and keys: "Object_keys v = map fst properties" and key: "get v key = Some m"
    and rest: "\<forall>k p'. k \<noteq> key \<and> map_of properties k = Some p' \<longrightarrow>
              (\<exists>x \<in> arbitrary p'. get v k = Some x \<and> get a k = Some x)"
    by blast
  show "Object_keys v = map fst properties" by (rule keys)
  have "\<forall>n. unionFree n \<and> interp n = p \<longrightarrow> \<not> valid n m"
    using m mutation_not_valid by blast
  with a p m v key rest
  show "\<exists>a key p m. a \<in> arbitrary (type_AM properties) \<and> map_of properties key = Some p \<and>
            m \<in> mutation p \<and> v = spreadWith a key m \<and> get v key = Some m \<and>
            (\<forall>n. unionFree n \<and> interp n = p \<longrightarrow> \<not> valid n m) \<and>
            (\<forall>k p'. k \<noteq> key \<and> map_of properties k = Some p' \<longrightarrow>
               (\<exists>x \<in> arbitrary p'. get v k = Some x \<and> get a k = Some x))"
    by (intro exI conjI) assumption+
  show "\<forall>a key p m. a \<in> arbitrary (type_AM properties) \<and> map_of properties key = Some p \<and>
            m \<in> mutation p \<longrightarrow> spreadWith a key m \<in> mutation (type_AM properties)"
    unfolding type_AM_mutation_iff [OF assms(1)] by blast
qed

text \<open>
  Witness of C3: \<open>{a: 42, b: 7}\<close> is a corrupted draw of
  \<open>type({a: string, b: number})\<close>.
\<close>

theorem type_mutation_single_fault_witness:
  "[(''a'', string), (''b'', number)] \<noteq> [] \<and>
   Object [(''a'', Number 42), (''b'', Number 7)] \<in> mutation (type_AM [(''a'', string), (''b'', number)]) \<and>
   Object_keys (Object [(''a'', Number 42), (''b'', Number 7)]) = [''a'', ''b''] \<and>
   (\<exists>a key p m. a \<in> arbitrary (type_AM [(''a'', string), (''b'', number)]) \<and>
       map_of [(''a'', string), (''b'', number)] key = Some p \<and> m \<in> mutation p \<and>
       Object [(''a'', Number 42), (''b'', Number 7)] = spreadWith a key m)"
proof -
  have ne: "[(''a'', string), (''b'', number)] \<noteq> []" by simp
  from type_mutation_single_fault [OF ne type_string_number_draw]
  have "\<exists>a key p m. a \<in> arbitrary (type_AM [(''a'', string), (''b'', number)]) \<and>
       map_of [(''a'', string), (''b'', number)] key = Some p \<and> m \<in> mutation p \<and>
       Object [(''a'', Number 42), (''b'', Number 7)] = spreadWith a key m"
    by blast
  with ne type_string_number_draw show ?thesis by simp
qed

section \<open>Optional objects\<close>

text \<open>
  Counterexample to C2 as stated: for \<open>partial({a: string, b: number})\<close> the valid
  draw \<open>{a: "x"}\<close> is non-empty and passes the filter; the key generator can draw
  \<open>b\<close>, a key that this instance does not hold, and the result \<open>{a: "x", b: "y"}\<close>
  has a field more than the instance.
\<close>

theorem partial_mutation_absent_key_counterexample:
  "Object [(''a'', String ''x'')] \<in>
     fc_filter (arbitrary (partial [(''a'', string), (''b'', number)])) nonEmpty \<and>
   ''b'' \<in> keyArbitrary [(''a'', string), (''b'', number)] \<and>
   ''b'' \<notin> set (Object_keys (Object [(''a'', String ''x'')])) \<and>
   Object [(''a'', String ''x''), (''b'', String ''y'')] \<in>
     corruptField [(''a'', string), (''b'', number)] (Object [(''a'', String ''x'')]) \<and>
   Object [(''a'', String ''x''), (''b'', String ''y'')] \<in>
     mutation (partial [(''a'', string), (''b'', number)]) \<and>
   Object_keys (Object [(''a'', String ''x''), (''b'', String ''y'')]) \<noteq>
     Object_keys (Object [(''a'', String ''x'')])"
proof -
  have ne: "[(''a'', string), (''b'', number)] \<noteq> []" by simp
  have ne': "nonEmpty (Object [(''a'', String ''x'')])" by (simp add: nonEmpty_def)
  have p: "map_of [(''a'', string), (''b'', number)] ''b'' = Some number" by simp
  have m: "String ''y'' \<in> mutation number" by (simp add: number_def A_string_def)
  have v: "Object [(''a'', String ''x''), (''b'', String ''y'')] =
      spreadWith (Object [(''a'', String ''x'')]) ''b'' (String ''y'')"
    by (simp add: spreadWith_def)
  have "Object [(''a'', String ''x''), (''b'', String ''y'')] \<in>
     corruptField [(''a'', string), (''b'', number)] (Object [(''a'', String ''x'')])"
    unfolding corruptField_iff using p m v by blast
  moreover have "Object [(''a'', String ''x''), (''b'', String ''y'')] \<in>
     mutation (partial [(''a'', string), (''b'', number)])"
    unfolding partial_mutation_iff [OF ne] using partial_a_only ne' p m v by blast
  ultimately show ?thesis using partial_a_only ne'
    by (simp add: fc_filter_iff keyArbitrary_support)
qed

text \<open>
  Claim C2, amended. For a non-empty field map, the corrupted draws of
  \<open>partial(properties)\<close> are the values \<^verbatim>\<open>{ ...a, [key]: m }\<close> where \<open>a\<close> is a
  non-empty valid draw, \<open>key\<close> is any declared key (held by \<open>a\<close> or not) and \<open>m\<close>
  is a corrupted draw of that field's generator. The result holds \<open>m\<close> under
  \<open>key\<close> and agrees with \<open>a\<close> on every other key.
\<close>

theorem partial_mutation_declared_key:
  assumes "properties \<noteq> []"
  shows "(v \<in> mutation (partial properties) \<longleftrightarrow>
           (\<exists>a key p m. a \<in> arbitrary (partial properties) \<and> nonEmpty a \<and>
              map_of properties key = Some p \<and> m \<in> mutation p \<and> v = spreadWith a key m)) \<and>
         (\<forall>a key m. get (spreadWith a key m) key = Some m \<and>
            (\<forall>k. k \<noteq> key \<longrightarrow> get (spreadWith a key m) k = get a k))"
proof (rule conjI)
  show "v \<in> mutation (partial properties) \<longleftrightarrow>
           (\<exists>a key p m. a \<in> arbitrary (partial properties) \<and> nonEmpty a \<and>
              map_of properties key = Some p \<and> m \<in> mutation p \<and> v = spreadWith a key m)"
    unfolding partial_mutation_iff [OF assms] by blast
  show "\<forall>a key m. get (spreadWith a key m) key = Some m \<and>
            (\<forall>k. k \<noteq> key \<longrightarrow> get (spreadWith a key m) k = get a k)"
    by (simp add: get_spreadWith get_ownProperties [symmetric])
qed

text \<open>
  Witness of C2: \<open>{a: "x", b: "y"}\<close> is a corrupted draw of
  \<open>partial({a: string, b: number})\<close>, from the instance \<open>{a: "x"}\<close> and the key
  \<open>b\<close>.
\<close>

theorem partial_mutation_declared_key_witness:
  "[(''a'', string), (''b'', number)] \<noteq> [] \<and>
   Object [(''a'', String ''x''), (''b'', String ''y'')] \<in>
     mutation (partial [(''a'', string), (''b'', number)]) \<and>
   get (spreadWith (Object [(''a'', String ''x'')]) ''b'' (String ''y'')) ''b'' = Some (String ''y'') \<and>
   get (spreadWith (Object [(''a'', String ''x'')]) ''b'' (String ''y'')) ''a'' = Some (String ''x'')"
proof -
  have ne: "[(''a'', string), (''b'', number)] \<noteq> []" by simp
  have ne': "nonEmpty (Object [(''a'', String ''x'')])" by (simp add: nonEmpty_def)
  have p: "map_of [(''a'', string), (''b'', number)] ''b'' = Some number" by simp
  have m: "String ''y'' \<in> mutation number" by (simp add: number_def A_string_def)
  have v: "Object [(''a'', String ''x''), (''b'', String ''y'')] =
      spreadWith (Object [(''a'', String ''x'')]) ''b'' (String ''y'')"
    by (simp add: spreadWith_def)
  note inst = partial_mutation_declared_key [OF ne,
      of "Object [(''a'', String ''x''), (''b'', String ''y'')]"]
  have "Object [(''a'', String ''x''), (''b'', String ''y'')] \<in>
     mutation (partial [(''a'', string), (''b'', number)])"
    using inst partial_a_only ne' p m v by blast
  moreover have "get (spreadWith (Object [(''a'', String ''x'')]) ''b'' (String ''y'')) ''a'' =
      Some (String ''x'')"
    using inst by simp
  ultimately show ?thesis using inst ne by simp
qed

section \<open>Intersections\<close>

text \<open>
  Counterexample to C9 as stated: merging the corrupted draw \<open>{a: 42}\<close> of
  \<open>type({a: string})\<close> with the corrupted draw \<open>{a: "s"}\<close> of \<open>type({a: number})\<close>
  gives \<open>{a: "s"}\<close>, a valid instance of the left node. Likewise the merge of an
  empty array (corrupted for \<open>UnknownRecord\<close>) with an empty object (corrupted for
  \<open>UnknownArray\<close>) is the empty object, valid for \<open>UnknownRecord\<close>.
\<close>

theorem intersection_mutation_one_side_valid_counterexample:
  "Object [(''a'', String ''s'')] \<in>
     mutation (interp (Intersection (ObjectRequired [(''a'', StringPrim)])
                                     (ObjectRequired [(''a'', NumberPrim)]))) \<and>
   valid (ObjectRequired [(''a'', StringPrim)]) (Object [(''a'', String ''s'')]) \<and>
   Object [(''a'', String ''s'')] \<in> arbitrary (interp (ObjectRequired [(''a'', StringPrim)])) \<and>
   Object [] \<in> mutation (interp (Intersection UnknownRecordPrim UnknownArrayPrim)) \<and>
   valid UnknownRecordPrim (Object [])"
proof -
  have l: "Object [(''a'', Number 42)] \<in> mutation (type_AM [(''a'', string)])"
  proof -
    have ne: "[(''a'', string)] \<noteq> []" by simp
    have "Object [(''a'', String ''x'')] \<in> arbitrary (type_AM [(''a'', string)])"
      by (simp add: type_AM_Cons A_type_iff arbitraries_def string_def A_string_def)
    moreover have "map_of [(''a'', string)] ''a'' = Some string" by simp
    moreover have "Number 42 \<in> mutation string" by (simp add: string_def A_number_def)
    moreover have "Object [(''a'', Number 42)] =
        spreadWith (Object [(''a'', String ''x'')]) ''a'' (Number 42)"
      by (simp add: spreadWith_def)
    ultimately show ?thesis unfolding type_AM_mutation_iff [OF ne] by blast
  qed
  have r: "Object [(''a'', String ''s'')] \<in> mutation (type_AM [(''a'', number)])"
  proof -
    have ne: "[(''a'', number)] \<noteq> []" by simp
    have "Object [(''a'', Number 1)] \<in> arbitrary (type_AM [(''a'', number)])"
      by (simp add: type_AM_Cons A_type_iff arbitraries_def number_def A_number_def)
    moreover have "map_of [(''a'', number)] ''a'' = Some number" by simp
    moreover have "String ''s'' \<in> mutation number" by (simp add: number_def A_string_def)
    moreover have "Object [(''a'', String ''s'')] =
        spreadWith (Object [(''a'', Number 1)]) ''a'' (String ''s'')"
      by (simp add: spreadWith_def)
    ultimately show ?thesis unfolding type_AM_mutation_iff [OF ne] by blast
  qed
  have "Object [(''a'', String ''s'')] =
      intersect (Object [(''a'', Number 42)]) (Object [(''a'', String ''s'')])"
    by (simp add: intersect_def)
  with l r have "Object [(''a'', String ''s'')] \<in>
      mutation (intersection (type_AM [(''a'', string)]) (type_AM [(''a'', number)]))"
    unfolding intersection_def mutation_make A_intersection_def by blast
  moreover have "Object [(''a'', String ''s'')] \<in> arbitrary (type_AM [(''a'', string)])"
    by (simp add: type_AM_Cons A_type_iff arbitraries_def string_def A_string_def)
  moreover have "Object [] \<in> mutation (intersection UnknownRecord UnknownArray)"
  proof -
    have "Array [] \<in> mutation UnknownRecord"
      by (simp add: UnknownRecord_def A_UnknownArray_def)
    moreover have "Object [] \<in> mutation UnknownArray"
      by (simp add: UnknownArray_def A_UnknownRecord_def)
    moreover have "Object [] = intersect (Array []) (Object [])"
      by (simp add: intersect_def)
    ultimately show ?thesis
      unfolding intersection_def mutation_make A_intersection_def by blast
  qed
  ultimately show ?thesis by simp
qed

text \<open>
  Claim C9, amended. The corrupted draws of \<open>intersection(A, B)\<close> are the
  structural merges of a corrupted draw of \<open>A\<close> with a corrupted draw of \<open>B\<close>.
  The merge holds every field of the right draw, and the fields of the left draw
  that the right draw lacks.
\<close>

theorem intersection_mutation_merges_mutations:
  "mutation (intersection left right) =
     {intersect a b |a b. a \<in> mutation left \<and> b \<in> mutation right} \<and>
   (\<forall>a b k. distinct (Object_keys b) \<longrightarrow>
      get (intersect a b) k = (case get b k of Some x \<Rightarrow> Some x | None \<Rightarrow> get a k))"
  by (simp add: intersection_def A_intersection_def get_intersect)

text \<open>
  Witness of C9: \<open>{a: 42, b: "s"}\<close> merges the corrupted draws \<open>{a: 42}\<close> and
  \<open>{b: "s"}\<close>; \<open>{a: 42}\<close> alone, a draw that corrupts the left side only, merges
  no pair of corrupted draws.
\<close>

theorem intersection_mutation_merges_mutations_witness:
  "intersect (Object [(''a'', Number 42)]) (Object [(''b'', String ''s'')]) \<in>
     mutation (intersection (make {Object [(''a'', Number 42)]} {Object [(''a'', String ''x'')]})
                            (make {Object [(''b'', String ''s'')]} {Object [(''b'', Number 1)]})) \<and>
   distinct (Object_keys (Object [(''b'', String ''s'')])) \<and>
   get (intersect (Object [(''a'', Number 42)]) (Object [(''b'', String ''s'')])) ''b'' =
     Some (String ''s'') \<and>
   get (intersect (Object [(''a'', Number 42)]) (Object [(''b'', String ''s'')])) ''a'' =
     Some (Number 42) \<and>
   Object [(''a'', Number 42)] \<notin>
     mutation (intersection (make {Object [(''a'', Number 42)]} {Object [(''a'', String ''x'')]})
                            (make {Object [(''b'', String ''s'')]} {Object [(''b'', Number 1)]}))"
proof -
  note inst = intersection_mutation_merges_mutations
    [of "make {Object [(''a'', Number 42)]} {Object [(''a'', String ''x'')]}"
        "make {Object [(''b'', String ''s'')]} {Object [(''b'', Number 1)]}"]
  have d: "distinct (Object_keys (Object [(''b'', String ''s'')]))" by simp
  from inst d have
    "get (intersect (Object [(''a'', Number 42)]) (Object [(''b'', String ''s'')])) ''b'' =
       Some (String ''s'')"
    "get (intersect (Object [(''a'', Number 42)]) (Object [(''b'', String ''s'')])) ''a'' =
       Some (Number 42)"
    by simp_all
  moreover from inst have
    "intersect (Object [(''a'', Number 42)]) (Object [(''b'', String ''s'')]) \<in>
     mutation (intersection (make {Object [(''a'', Number 42)]} {Object [(''a'', String ''x'')]})
                            (make {Object [(''b'', String ''s'')]} {Object [(''b'', Number 1)]}))"
    by simp
  moreover from inst have
    "Object [(''a'', Number 42)] \<notin>
     mutation (intersection (make {Object [(''a'', Number 42)]} {Object [(''a'', String ''x'')]})
                            (make {Object [(''b'', String ''s'')]} {Object [(''b'', Number 1)]}))"
    by (simp add: intersect_def)
  ultimately show ?thesis using d by simp
qed

section \<open>Corrupted draws and validity\<close>

text \<open>
  Counterexample to C1 as stated: 42 is a corrupted draw of \<open>union(string, number)\<close>
  (it is a corrupted draw of the member \<open>string\<close>) and a valid instance of that
  union; the empty object is a corrupted draw of \<open>nullable(UnknownRecord)\<close> and a
  valid instance of it. Both values are also draws of the node's valid generator.
\<close>

theorem union_mutation_valid_counterexample:
  "Number 42 \<in> mutation (interp (UntaggedUnion [StringPrim, NumberPrim])) \<and>
   valid (UntaggedUnion [StringPrim, NumberPrim]) (Number 42) \<and>
   Number 42 \<in> arbitrary (interp (UntaggedUnion [StringPrim, NumberPrim])) \<and>
   Object [] \<in> mutation (interp (Nullable UnknownRecordPrim)) \<and>
   valid (Nullable UnknownRecordPrim) (Object []) \<and>
   Object [] \<in> arbitrary (interp (Nullable UnknownRecordPrim))"
  by (simp add: union_AM_mutation union_AM_arbitrary nullable_mutation nullable_arbitrary
      string_def number_def UnknownRecord_def A_number_def A_UnknownRecord_def)

text \<open>
  Claim C1, amended. For every union-free node (built from literals, the primitives
  and the object, map, tuple and array combinators), no corrupted draw is
  structurally valid for the node. The corrupted draws of \<open>union(members)\<close> are the
  corrupted draws of its members, and those of \<open>nullable(inner)\<close> are the empty
  object and the corrupted draws of \<open>inner\<close>; nothing keeps such a draw from being
  valid for the node.
\<close>

theorem mutation_invalid_without_unions:
  "(unionFree n \<longrightarrow> (\<forall>v \<in> mutation (interp n). \<not> valid n v)) \<and>
   mutation (union_AM members) = \<Union> (mutation ` set members) \<and>
   mutation (nullable inner) = insert (Object []) (mutation inner)"
  using mutation_not_valid union_AM_mutation nullable_mutation by blast

text \<open>
  Witness of C1: \<open>{a: 42, b: 7}\<close> is a corrupted draw of the union-free node
  \<open>type({a: string, b: number})\<close> and is not valid for it.
\<close>

theorem mutation_invalid_without_unions_witness:
  "unionFree (ObjectRequired [(''a'', StringPrim), (''b'', NumberPrim)]) \<and>
   Object [(''a'', Number 42), (''b'', Number 7)] \<in>
     mutation (interp (ObjectRequired [(''a'', StringPrim), (''b'', NumberPrim)])) \<and>
   \<not> valid (ObjectRequired [(''a'', StringPrim), (''b'', NumberPrim)])
       (Object [(''a'', Number 42), (''b'', Number 7)]) \<and>
   mutation (union_AM [string, number]) = mutation string \<union> mutation number"
  using mutation_invalid_without_unions
    [of "ObjectRequired [(''a'', StringPrim), (''b'', NumberPrim)]" "[string, number]"]
    type_string_number_draw
  by simp

section \<open>Further properties of the builders\<close>

lemma isArray_not_isObject: "isArray v \<Longrightarrow> \<not> isObject v"
  by (cases v) simp_all

text \<open>
  X1. \<open>UnknownArray\<close> and \<open>UnknownRecord\<close> are corrupted by each other's valid
  shape: the corrupted generator of one is the valid generator of the other, so no
  corrupted draw of \<open>UnknownArray\<close> is an array and no corrupted draw of
  \<open>UnknownRecord\<close> is an object.
\<close>

theorem unknown_array_record_swap:
  "mutation UnknownArray = arbitrary UnknownRecord \<and>
   mutation UnknownRecord = arbitrary UnknownArray \<and>
   mutation UnknownArray \<inter> {v. isArray v} = {} \<and>
   mutation UnknownRecord \<inter> {v. isObject v} = {}"
  by (auto simp add: UnknownArray_def UnknownRecord_def A_UnknownArray_def A_UnknownRecord_def
      dest: isArray_not_isObject)

text \<open>
  X2. An optional object with no declared field has the generators of the required
  object with no declared field: its valid draws are the empty object and its
  corrupted draws are the empty array.
\<close>

theorem partial_empty_generators:
  "arbitrary (partial []) = {Object []} \<and> mutation (partial []) = {Array []} \<and>
   partial [] = type_AM []"
  by (simp add: partial_def type_AM_def fc_constant_def)

end
